theory Spec2Isabelle
  imports Main "HOL-Library.Word" "HOL-Library.Signed_Division" "HOL-Library.Sublist"
begin

unbundle bit_operations_syntax

section \<open>Data model of analysis.go\<close>

text \<open>
  Go's \<open>int64\<close> is a 64-bit word: \<open>+\<close>, \<open>-\<close> and \<open>*\<close> wrap around, comparisons read
  the word as two's complement (\<open>sint\<close>), and \<open>/\<close> truncates towards zero.
\<close>

type_synonym int64 = "64 word"
type_synonym byte = "8 word"

definition lt64 :: "int64 \<Rightarrow> int64 \<Rightarrow> bool" where
  "lt64 a b = (sint a < sint b)"

definition le64 :: "int64 \<Rightarrow> int64 \<Rightarrow> bool" where
  "le64 a b = (sint a \<le> sint b)"

definition div64 :: "int64 \<Rightarrow> int64 \<Rightarrow> int64" where
  "div64 a b = word_of_int (sint a sdiv sint b)"

definition similarityPercentThreshold :: int64 where
  "similarityPercentThreshold = 30"

text \<open>
  \<open>RollsumBlob\<close> is declared in the chunker's file; analysis.go reads its fields
  \<open>offset\<close> and \<open>size\<close> (both compared and added with \<open>int64\<close> values). The digest
  of a chunk is kept abstract.
\<close>

record RollsumBlob =
  offset_blob :: int64
  size_blob :: int64
  digest_blob :: string

record TarFileInfo =
  index :: int
  basename :: string
  path :: string
  size_file :: int64
  sha1 :: string
  isExecutable :: bool
  worldReadable :: bool
  blobs :: "RollsumBlob list"

text \<open>\<open>TarInfo.files\<close>: a slice of file records.\<close>

type_synonym TarInfo = "TarFileInfo list"

text \<open>
  \<open>SourceInfo.file\<close> points at an immutable element of \<open>old.files\<close>; the record
  holds that element. A \<open>*SourceInfo\<close> is an index into the slice \<open>sourceInfos\<close>.
\<close>

record SourceInfo =
  file_src :: TarFileInfo
  usedForDelta :: bool
  offset :: int64

record 'm TargetInfo =
  file_tgt :: TarFileInfo
  source :: "nat option"
  rollsumMatches :: "'m option"

text \<open>The fields of \<open>tar.Header\<close> that analysis.go reads.\<close>

record Header =
  Typeflag :: char
  Name :: string
  Size :: int64
  Mode :: int64
  PAXRecords :: "string \<rightharpoonup> string"

definition TypeReg :: char where
  "TypeReg = CHR ''0''"

definition TypeGNUSparse :: char where
  "TypeGNUSparse = CHR ''S''"

text \<open>Reading a Go map of strings at a missing key gives the empty string.\<close>

definition pax :: "Header \<Rightarrow> string \<Rightarrow> string" where
  "pax hdr k = (case PAXRecords hdr k of None \<Rightarrow> [] | Some v \<Rightarrow> v)"

section \<open>Entry eligibility\<close>

definition isSparseFile :: "Header \<Rightarrow> bool" where
  "isSparseFile hdr =
     (if Typeflag hdr = TypeGNUSparse then True
      else if Typeflag hdr = TypeReg \<and>
              (pax hdr ''GNU.sparse.major'' \<noteq> [] \<or> pax hdr ''GNU.sparse.minor'' \<noteq> [] \<or>
               pax hdr ''GNU.sparse.map'' \<noteq> []) then True
      else False)"

definition useTarHeader :: "Header \<Rightarrow> bool" where
  "useTarHeader hdr =
     (if Typeflag hdr \<noteq> TypeReg then False
      else if Size hdr = 0 then False
      else if isSparseFile hdr then False
      else True)"

definition isDeltaCandidate :: "TarFileInfo \<Rightarrow> bool" where
  "isDeltaCandidate file =
     (if \<not> worldReadable file then False
      else if prefix ''.xz'' (basename file) \<or> prefix ''.bz2'' (basename file) then False
      else True)"

section \<open>Name similarity\<close>

text \<open>
  \<open>strings.SplitAfterN(s, sep, 2)\<close> for a one-character separator: the text up to and
  including the first separator and the rest, or the whole string alone when it has no
  separator.
\<close>

fun SplitAfterN2 :: "string \<Rightarrow> char \<Rightarrow> string list" where
  "SplitAfterN2 [] sep = [[]]"
| "SplitAfterN2 (c # cs) sep =
     (if c = sep then [[c], cs]
      else (case SplitAfterN2 cs sep of
              [] \<Rightarrow> [[c]]
            | p # rest \<Rightarrow> (c # p) # rest))"

definition nameIsSimilar :: "TarFileInfo \<Rightarrow> TarFileInfo \<Rightarrow> int \<Rightarrow> bool" where
  "nameIsSimilar a b fuzzy =
     (if fuzzy = 0 then basename a = basename b
      else (let aa = hd (SplitAfterN2 (basename a) CHR ''.'');
                bb = hd (SplitAfterN2 (basename b) CHR ''.'')
            in aa = bb))"

text \<open>
  The specification's wording of the pass-1 test: the basenames agree up to, and
  excluding, the first \<open>.\<close>.
\<close>

definition stem :: "string \<Rightarrow> string" where
  "stem s = takeWhile (\<lambda>c. c \<noteq> CHR ''.'') s"

definition spec_pass1_similar :: "TarFileInfo \<Rightarrow> TarFileInfo \<Rightarrow> bool" where
  "spec_pass1_similar a b = (stem (basename a) = stem (basename b))"

definition hasDot :: "string \<Rightarrow> bool" where
  "hasDot s = (CHR ''.'' \<in> set s)"

section \<open>Source selection\<close>

definition initSourceInfos :: "TarInfo \<Rightarrow> SourceInfo list" where
  "initSourceInfos old = map (\<lambda>f. \<lparr>file_src = f, usedForDelta = False, offset = 0\<rparr>) old"

text \<open>
  The two lookup tables are filled in slice order, so of several records with the same
  key the last one stays. A table entry is the index of the record in \<open>sourceInfos\<close>.
\<close>

definition sourceBySha1 :: "SourceInfo list \<Rightarrow> (string \<rightharpoonup> nat)" where
  "sourceBySha1 sourceInfos =
     foldl (\<lambda>m i. m(sha1 (file_src (sourceInfos ! i)) \<mapsto> i)) Map.empty [0..<length sourceInfos]"

definition sourceByPath :: "SourceInfo list \<Rightarrow> (string \<rightharpoonup> nat)" where
  "sourceByPath sourceInfos =
     foldl (\<lambda>m i. m(path (file_src (sourceInfos ! i)) \<mapsto> i)) Map.empty [0..<length sourceInfos]"

definition minSize :: "TarFileInfo \<Rightarrow> int64" where
  "minSize file = size_file file - div64 (size_file file * similarityPercentThreshold) 100"

definition maxSize :: "TarFileInfo \<Rightarrow> int64" where
  "maxSize file = size_file file + div64 (size_file file * similarityPercentThreshold) 100"

text \<open>
  The inner loop \<open>for j := lower; j < upper; j++\<close>. The result is the value of
  \<open>lower\<close> when the loop ends and the record chosen, if any (\<open>Some j\<close> stands for
  \<open>usedForDelta = true; source = &sourceInfos[j]\<close>).
\<close>

function scanFrom ::
  "SourceInfo list \<Rightarrow> TarFileInfo \<Rightarrow> int \<Rightarrow> nat \<Rightarrow> nat \<Rightarrow> nat \<Rightarrow> nat \<times> nat option" where
  "scanFrom sourceInfos file fuzzy upper j lower =
     (if j < upper then
        (if \<not> isDeltaCandidate (file_src (sourceInfos ! j)) then
           scanFrom sourceInfos file fuzzy upper (Suc j) lower
         else if lt64 (size_file (file_src (sourceInfos ! j))) (minSize file) then
           scanFrom sourceInfos file fuzzy upper (Suc j) (Suc lower)
         else if lt64 (maxSize file) (size_file (file_src (sourceInfos ! j))) then
           (lower, None)
         else if \<not> nameIsSimilar file (file_src (sourceInfos ! j)) fuzzy then
           scanFrom sourceInfos file fuzzy upper (Suc j) lower
         else (lower, Some j))
      else (lower, None))"
  by pat_completeness auto
termination
  by (relation "measure (\<lambda>(sourceInfos, file, fuzzy, upper, j, lower). upper - j)") auto

declare scanFrom.simps [simp del]

text \<open>
  The outer loop \<open>for fuzzy := 0; fuzzy < 2 && source == nil; fuzzy++\<close>; the result is
  the final value of \<open>fuzzy\<close>, \<open>lower\<close> and \<open>source\<close>.
\<close>

function fuzzyLoop ::
  "SourceInfo list \<Rightarrow> TarFileInfo \<Rightarrow> nat \<Rightarrow> int \<Rightarrow> nat \<Rightarrow> nat option \<Rightarrow> int \<times> nat \<times> nat option" where
  "fuzzyLoop sourceInfos file upper fuzzy lower src =
     (if fuzzy < 2 \<and> src = None then
        (case scanFrom sourceInfos file fuzzy upper lower lower of
           (lower', src') \<Rightarrow> fuzzyLoop sourceInfos file upper (fuzzy + 1) lower' src')
      else (fuzzy, lower, src))"
  by pat_completeness auto
termination
  by (relation "measure (\<lambda>(sourceInfos, file, upper, fuzzy, lower, src). nat (2 - fuzzy))") auto

declare fuzzyLoop.simps [simp del]

text \<open>
  The naive scan the shared lower bound is compared with: the same two passes, each
  starting at index 0.
\<close>

function naiveFuzzyLoop ::
  "SourceInfo list \<Rightarrow> TarFileInfo \<Rightarrow> nat \<Rightarrow> int \<Rightarrow> nat option \<Rightarrow> int \<times> nat option" where
  "naiveFuzzyLoop sourceInfos file upper fuzzy src =
     (if fuzzy < 2 \<and> src = None then
        naiveFuzzyLoop sourceInfos file upper (fuzzy + 1)
          (snd (scanFrom sourceInfos file fuzzy upper 0 0))
      else (fuzzy, src))"
  by pat_completeness auto
termination
  by (relation "measure (\<lambda>(sourceInfos, file, upper, fuzzy, src). nat (2 - fuzzy))") auto

declare naiveFuzzyLoop.simps [simp del]

text \<open>
  The choice made for one target, lines 253 to 304: the pair \<open>(usedForDelta, source)\<close>
  as it stands when line 306 is reached.
\<close>

definition selectSource ::
  "SourceInfo list \<Rightarrow> (string \<rightharpoonup> nat) \<Rightarrow> (string \<rightharpoonup> nat) \<Rightarrow> TarFileInfo \<Rightarrow> bool \<times> nat option" where
  "selectSource sourceInfos bySha1 byPath file =
     (let sha1Source = bySha1 (sha1 file);
          src =
            (case sha1Source of
               None \<Rightarrow> None
             | Some k \<Rightarrow>
                 if size_file file = size_file (file_src (sourceInfos ! k)) \<and>
                    worldReadable (file_src (sourceInfos ! k))
                 then sha1Source else None)
      in if src = None \<and> isDeltaCandidate file then
           (case byPath (path file) of
              None \<Rightarrow>
                (case fuzzyLoop sourceInfos file (length sourceInfos) 0 0 None of
                   (fuzzy, lower, found) \<Rightarrow> (found \<noteq> None, found))
            | Some k \<Rightarrow>
                if isDeltaCandidate (file_src (sourceInfos ! k)) \<and>
                   le64 (minSize file) (size_file (file_src (sourceInfos ! k))) \<and>
                   lt64 (size_file (file_src (sourceInfos ! k))) (maxSize file)
                then (True, Some k)
                else (case fuzzyLoop sourceInfos file (length sourceInfos) 0 0 None of
                        (fuzzy, lower, found) \<Rightarrow> (found \<noteq> None, found)))
         else (False, src))"

text \<open>
  One turn of the loop over \<open>new.files\<close>, lines 251 to 316. \<open>crm\<close> stands for
  \<open>ComputeRollsumMatches\<close>, which lives in the chunker's file.
\<close>

definition analyzeTarget ::
  "(RollsumBlob list \<Rightarrow> RollsumBlob list \<Rightarrow> 'm) \<Rightarrow> (string \<rightharpoonup> nat) \<Rightarrow> (string \<rightharpoonup> nat) \<Rightarrow>
   SourceInfo list \<times> 'm TargetInfo list \<Rightarrow> TarFileInfo \<Rightarrow> SourceInfo list \<times> 'm TargetInfo list" where
  "analyzeTarget crm bySha1 byPath st file =
     (case st of (sourceInfos, targetInfos) \<Rightarrow>
        (case selectSource sourceInfos bySha1 byPath file of
           (used, None) \<Rightarrow>
             (sourceInfos,
              targetInfos @ [\<lparr>file_tgt = file, source = None, rollsumMatches = None\<rparr>])
         | (used, Some k) \<Rightarrow>
             (sourceInfos[k := (sourceInfos ! k)\<lparr>usedForDelta := used\<rparr>],
              targetInfos @
                [\<lparr>file_tgt = file, source = Some k,
                  rollsumMatches =
                    (if used then Some (crm (blobs (file_src (sourceInfos ! k))) (blobs file))
                     else None)\<rparr>])))"

text \<open>Lines 236 to 316: the records built from the two inventories.\<close>

definition selectAll ::
  "(RollsumBlob list \<Rightarrow> RollsumBlob list \<Rightarrow> 'm) \<Rightarrow> TarInfo \<Rightarrow> TarInfo \<Rightarrow>
   SourceInfo list \<times> 'm TargetInfo list" where
  "selectAll crm old new =
     (let sourceInfos = initSourceInfos old
      in foldl (analyzeTarget crm (sourceBySha1 sourceInfos) (sourceByPath sourceInfos))
           (sourceInfos, []) new)"

section \<open>Notions used in the statements\<close>

text \<open>The inventory order produced by the scanner: ascending by size.\<close>

definition sizeSorted :: "SourceInfo list \<Rightarrow> bool" where
  "sizeSorted sourceInfos =
     sorted_wrt (\<lambda>a b. le64 (size_file (file_src a)) (size_file (file_src b))) sourceInfos"

text \<open>A record the inner loop passes over without looking at its name.\<close>

definition skipped :: "SourceInfo list \<Rightarrow> TarFileInfo \<Rightarrow> nat \<Rightarrow> bool" where
  "skipped sourceInfos file i =
     (\<not> isDeltaCandidate (file_src (sourceInfos ! i)) \<or>
      lt64 (size_file (file_src (sourceInfos ! i))) (minSize file))"

text \<open>The record appended to \<open>targetInfos\<close> for one target.\<close>

definition targetInfoOf ::
  "(RollsumBlob list \<Rightarrow> RollsumBlob list \<Rightarrow> 'm) \<Rightarrow> SourceInfo list \<Rightarrow> (string \<rightharpoonup> nat) \<Rightarrow>
   (string \<rightharpoonup> nat) \<Rightarrow> TarFileInfo \<Rightarrow> 'm TargetInfo" where
  "targetInfoOf crm sourceInfos bySha1 byPath file =
     last (snd (analyzeTarget crm bySha1 byPath (sourceInfos, []) file))"

section \<open>Concrete inputs\<close>

definition mkFile :: "int \<Rightarrow> string \<Rightarrow> string \<Rightarrow> int64 \<Rightarrow> string \<Rightarrow> bool \<Rightarrow> TarFileInfo" where
  "mkFile i p b n h wr =
     \<lparr>index = i, basename = b, path = p, size_file = n, sha1 = h,
      isExecutable = False, worldReadable = wr, blobs = []\<rparr>"

definition exSources :: "SourceInfo list" where
  "exSources = initSourceInfos
     [mkFile 0 ''etc/x'' ''x'' 10 ''h0'' True,
      mkFile 1 ''lib/foo.tar'' ''foo.tar'' 90 ''h1'' True]"

definition exTarget :: TarFileInfo where
  "exTarget = mkFile 0 ''lib/foo.zip'' ''foo.zip'' 100 ''h2'' True"

section \<open>Name similarity: what pass 1 compares\<close>

lemma SplitAfterN2_nonempty: "SplitAfterN2 s sep \<noteq> []"
  by (induction s) (auto split: list.splits)

lemma hd_SplitAfterN2_nodot:
  "\<not> hasDot s \<Longrightarrow> SplitAfterN2 s CHR ''.'' = [s]"
  by (induction s) (auto simp: hasDot_def)

lemma hd_SplitAfterN2_dot:
  "hasDot s \<Longrightarrow> hd (SplitAfterN2 s CHR ''.'') = stem s @ ''.''"
  by (induction s) (auto simp: hasDot_def stem_def SplitAfterN2_nonempty split: list.splits)

lemma stem_nodot: "\<not> hasDot s \<Longrightarrow> stem s = s"
  by (induction s) (auto simp: hasDot_def stem_def)

lemma stem_has_no_dot: "\<not> hasDot (stem s)"
  by (induction s) (auto simp: hasDot_def stem_def)

text \<open>
  C3 (as stated, refuted): the basenames \<open>foo\<close> and \<open>foo.tar\<close> agree up to and excluding
  the first dot, yet the pass-1 test of the code rejects the pair: it compares
  \<open>foo\<close> with \<open>foo.\<close>.
\<close>

theorem C3_counterexample:
  "spec_pass1_similar (mkFile 0 ''foo'' ''foo'' 10 ''h1'' True)
                      (mkFile 1 ''foo.tar'' ''foo.tar'' 10 ''h2'' True) \<and>
   \<not> nameIsSimilar (mkFile 0 ''foo'' ''foo'' 10 ''h1'' True)
                    (mkFile 1 ''foo.tar'' ''foo.tar'' 10 ''h2'' True) 1"
  by (simp add: spec_pass1_similar_def stem_def nameIsSimilar_def mkFile_def)

text \<open>
  C3 (amended): at pass 1 (any non-zero fuzziness) two records are name-similar exactly
  when their basenames agree up to and including the first dot: either both contain a dot
  and the texts before the first dot are identical, or neither contains a dot and the
  basenames are identical. At pass 0 the basenames must be identical.
\<close>

theorem C3_nameIsSimilar_pass1:
  "nameIsSimilar a b 0 = (basename a = basename b) \<and>
   (fuzzy \<noteq> 0 \<longrightarrow>
      nameIsSimilar a b fuzzy =
        ((hasDot (basename a) \<and> hasDot (basename b) \<and> stem (basename a) = stem (basename b)) \<or>
         (\<not> hasDot (basename a) \<and> \<not> hasDot (basename b) \<and> basename a = basename b)))"
proof -
  have p1: "(hd (SplitAfterN2 x CHR ''.'') = hd (SplitAfterN2 y CHR ''.'')) =
        ((hasDot x \<and> hasDot y \<and> stem x = stem y) \<or> (\<not> hasDot x \<and> \<not> hasDot y \<and> x = y))"
    for x y
  proof (cases "hasDot x"; cases "hasDot y")
    assume "hasDot x" "hasDot y"
    then show ?thesis by (simp add: hd_SplitAfterN2_dot)
  next
    assume h: "hasDot x" "\<not> hasDot y"
    have "stem x @ ''.'' \<noteq> y"
      using h(2) by (auto simp: hasDot_def)
    with h show ?thesis by (simp add: hd_SplitAfterN2_dot hd_SplitAfterN2_nodot)
  next
    assume h: "\<not> hasDot x" "hasDot y"
    have "x \<noteq> stem y @ ''.''"
      using h(1) by (auto simp: hasDot_def)
    with h show ?thesis by (simp add: hd_SplitAfterN2_dot hd_SplitAfterN2_nodot)
  next
    assume "\<not> hasDot x" "\<not> hasDot y"
    then show ?thesis by (simp add: hd_SplitAfterN2_nodot)
  qed
  show ?thesis
    by (simp add: nameIsSimilar_def p1)
qed

theorem C3_nameIsSimilar_pass1_witness:
  "nameIsSimilar (mkFile 0 ''foo.tar'' ''foo.tar'' 10 ''h1'' True)
                 (mkFile 1 ''foo.zip'' ''foo.zip'' 10 ''h2'' True) 1 \<and>
   (1::int) \<noteq> 0 \<and>
   hasDot ''foo.tar'' \<and> hasDot ''foo.zip'' \<and> stem ''foo.tar'' = stem ''foo.zip''"
  using C3_nameIsSimilar_pass1 [of "mkFile 0 ''foo.tar'' ''foo.tar'' 10 ''h1'' True"
      "mkFile 1 ''foo.zip'' ''foo.zip'' 10 ''h2'' True" 1]
  by (simp add: mkFile_def hasDot_def stem_def)

section \<open>The scan over the size-sorted records\<close>

lemma scanFrom_stop: "\<not> j < u \<Longrightarrow> scanFrom s f z u j l = (l, None)"
  by (subst scanFrom.simps) simp

lemma scanFrom_noncand:
  "j < u \<Longrightarrow> \<not> isDeltaCandidate (file_src (s ! j)) \<Longrightarrow>
   scanFrom s f z u j l = scanFrom s f z u (Suc j) l"
  by (subst scanFrom.simps) simp

lemma scanFrom_below:
  "j < u \<Longrightarrow> isDeltaCandidate (file_src (s ! j)) \<Longrightarrow>
   lt64 (size_file (file_src (s ! j))) (minSize f) \<Longrightarrow>
   scanFrom s f z u j l = scanFrom s f z u (Suc j) (Suc l)"
  by (subst scanFrom.simps) simp

lemma scanFrom_above:
  "j < u \<Longrightarrow> isDeltaCandidate (file_src (s ! j)) \<Longrightarrow>
   \<not> lt64 (size_file (file_src (s ! j))) (minSize f) \<Longrightarrow>
   lt64 (maxSize f) (size_file (file_src (s ! j))) \<Longrightarrow>
   scanFrom s f z u j l = (l, None)"
  by (subst scanFrom.simps) simp

lemma scanFrom_dissimilar:
  "j < u \<Longrightarrow> isDeltaCandidate (file_src (s ! j)) \<Longrightarrow>
   \<not> lt64 (size_file (file_src (s ! j))) (minSize f) \<Longrightarrow>
   \<not> lt64 (maxSize f) (size_file (file_src (s ! j))) \<Longrightarrow>
   \<not> nameIsSimilar f (file_src (s ! j)) z \<Longrightarrow>
   scanFrom s f z u j l = scanFrom s f z u (Suc j) l"
  by (subst scanFrom.simps) simp

lemma scanFrom_found:
  "j < u \<Longrightarrow> isDeltaCandidate (file_src (s ! j)) \<Longrightarrow>
   \<not> lt64 (size_file (file_src (s ! j))) (minSize f) \<Longrightarrow>
   \<not> lt64 (maxSize f) (size_file (file_src (s ! j))) \<Longrightarrow>
   nameIsSimilar f (file_src (s ! j)) z \<Longrightarrow>
   scanFrom s f z u j l = (l, Some j)"
  by (subst scanFrom.simps) simp

lemma scanFrom_lower_irrelevant:
  "snd (scanFrom s f z u j l) = snd (scanFrom s f z u j l')"
proof (induction s f z u j l arbitrary: l' rule: scanFrom.induct)
  case (1 s f z u j l)
  show ?case
  proof (cases "j < u")
    case False
    then show ?thesis by (simp add: scanFrom_stop)
  next
    case ju: True
    show ?thesis
    proof (cases "isDeltaCandidate (file_src (s ! j))")
      case False
      with ju "1.IH"(1) [OF ju False, of l'] show ?thesis
        by (simp add: scanFrom_noncand)
    next
      case cand: True
      show ?thesis
      proof (cases "lt64 (size_file (file_src (s ! j))) (minSize f)")
        case low: True
        have "snd (scanFrom s f z u (Suc j) (Suc l)) = snd (scanFrom s f z u (Suc j) (Suc l'))"
          using "1.IH"(2) [OF ju _ low, of "Suc l'"] cand by simp
        with ju cand low show ?thesis
          by (simp add: scanFrom_below)
      next
        case nlow: False
        show ?thesis
        proof (cases "lt64 (maxSize f) (size_file (file_src (s ! j)))")
          case True
          with ju cand nlow show ?thesis by (simp add: scanFrom_above)
        next
          case nhigh: False
          show ?thesis
          proof (cases "nameIsSimilar f (file_src (s ! j)) z")
            case True
            with ju cand nlow nhigh show ?thesis by (simp add: scanFrom_found)
          next
            case False
            have "snd (scanFrom s f z u (Suc j) l) = snd (scanFrom s f z u (Suc j) l')"
              using "1.IH"(3) [OF ju _ nlow nhigh _, of l'] cand False by simp
            with ju cand nlow nhigh False show ?thesis
              by (simp add: scanFrom_dissimilar)
          qed
        qed
      qed
    qed
  qed
qed

lemma scanFrom_skip_prefix:
  "j \<le> k \<Longrightarrow> k \<le> u \<Longrightarrow> (\<forall>i. j \<le> i \<and> i < k \<longrightarrow> skipped s f i) \<Longrightarrow>
   snd (scanFrom s f z u j l) = snd (scanFrom s f z u k l')"
proof (induction "k - j" arbitrary: j l)
  case 0
  then show ?case using scanFrom_lower_irrelevant by simp
next
  case (Suc n)
  then have jk: "j < k" "j < u" "skipped s f j" by auto
  have step: "snd (scanFrom s f z u j l) = snd (scanFrom s f z u (Suc j) l)"
    using jk by (subst scanFrom.simps) (auto simp: skipped_def scanFrom_lower_irrelevant [of s f z u "Suc j" "Suc l" l])
  have "snd (scanFrom s f z u (Suc j) l) = snd (scanFrom s f z u k l')"
    using Suc by (intro Suc.hyps(1)) auto
  with step show ?case by simp
qed

lemma sizeSorted_nth:
  "sizeSorted s \<Longrightarrow> i \<le> j \<Longrightarrow> j < length s \<Longrightarrow>
   le64 (size_file (file_src (s ! i))) (size_file (file_src (s ! j)))"
  by (cases "i = j") (auto simp: sizeSorted_def sorted_wrt_iff_nth_less le64_def)

lemma scanFrom_lower_skipped:
  "sizeSorted s \<Longrightarrow> u \<le> length s \<Longrightarrow> l \<le> j \<Longrightarrow> j \<le> u \<Longrightarrow> (\<forall>i<l. skipped s f i) \<Longrightarrow>
   scanFrom s f z u j l = (l', r) \<Longrightarrow> l' \<le> u \<and> (\<forall>i<l'. skipped s f i)"
proof (induction s f z u j l rule: scanFrom.induct)
  case (1 s f z u j l)
  note srt = "1.prems"(1) and ul = "1.prems"(2) and lj = "1.prems"(3) and ju' = "1.prems"(4)
    and sk = "1.prems"(5) and res = "1.prems"(6)
  consider (stop) "l' = l"
    | (a) "j < u" "\<not> isDeltaCandidate (file_src (s ! j))" "scanFrom s f z u (Suc j) l = (l', r)"
    | (b) "j < u" "isDeltaCandidate (file_src (s ! j))"
          "lt64 (size_file (file_src (s ! j))) (minSize f)"
          "scanFrom s f z u (Suc j) (Suc l) = (l', r)"
    | (c) "j < u" "isDeltaCandidate (file_src (s ! j))"
          "\<not> lt64 (size_file (file_src (s ! j))) (minSize f)"
          "\<not> lt64 (maxSize f) (size_file (file_src (s ! j)))"
          "\<not> nameIsSimilar f (file_src (s ! j)) z" "scanFrom s f z u (Suc j) l = (l', r)"
    using res by (subst (asm) scanFrom.simps) (auto split: if_splits)
  then show ?case
  proof cases
    case stop
    with lj ju' sk show ?thesis by simp
  next
    case a
    have "l \<le> Suc j" "Suc j \<le> u" using lj a(1) by simp_all
    from "1.IH"(1) [OF a(1) a(2) srt ul this sk a(3)] show ?thesis .
  next
    case b
    have sk': "\<forall>i<Suc l. skipped s f i"
    proof (intro allI impI)
      fix i assume "i < Suc l"
      then have "i \<le> j" using lj by simp
      then have "le64 (size_file (file_src (s ! i))) (size_file (file_src (s ! j)))"
        using sizeSorted_nth [OF srt] b(1) ul by simp
      with b(3) show "skipped s f i" by (auto simp: skipped_def le64_def lt64_def)
    qed
    have "Suc l \<le> Suc j" "Suc j \<le> u" using lj b(1) by simp_all
    from "1.IH"(2) [OF b(1) _ b(3) srt ul this sk' b(4)] b(2) show ?thesis by simp
  next
    case c
    have "l \<le> Suc j" "Suc j \<le> u" using lj c(1) by simp_all
    from "1.IH"(3) [OF c(1) _ c(3) c(4) c(5) srt ul this sk c(6)] c(2) show ?thesis by simp
  qed
qed

lemma scanFrom_SomeD:
  "scanFrom s f z u j l = (l', Some k) \<Longrightarrow>
   j \<le> k \<and> k < u \<and> isDeltaCandidate (file_src (s ! k)) \<and>
   \<not> lt64 (size_file (file_src (s ! k))) (minSize f) \<and>
   \<not> lt64 (maxSize f) (size_file (file_src (s ! k))) \<and>
   nameIsSimilar f (file_src (s ! k)) z"
proof (induction s f z u j l rule: scanFrom.induct)
  case (1 s f z u j l)
  let ?P = "\<lambda>j. j \<le> k \<and> k < u \<and> isDeltaCandidate (file_src (s ! k)) \<and>
   \<not> lt64 (size_file (file_src (s ! k))) (minSize f) \<and>
   \<not> lt64 (maxSize f) (size_file (file_src (s ! k))) \<and>
   nameIsSimilar f (file_src (s ! k)) z"
  have ju: "j < u"
    using "1.prems" by (subst (asm) scanFrom.simps) (simp split: if_splits)
  consider (a) "\<not> isDeltaCandidate (file_src (s ! j))" "scanFrom s f z u (Suc j) l = (l', Some k)"
    | (b) "isDeltaCandidate (file_src (s ! j))" "lt64 (size_file (file_src (s ! j))) (minSize f)"
          "scanFrom s f z u (Suc j) (Suc l) = (l', Some k)"
    | (c) "isDeltaCandidate (file_src (s ! j))" "\<not> lt64 (size_file (file_src (s ! j))) (minSize f)"
          "\<not> lt64 (maxSize f) (size_file (file_src (s ! j)))"
          "\<not> nameIsSimilar f (file_src (s ! j)) z" "scanFrom s f z u (Suc j) l = (l', Some k)"
    | (d) "isDeltaCandidate (file_src (s ! j))" "\<not> lt64 (size_file (file_src (s ! j))) (minSize f)"
          "\<not> lt64 (maxSize f) (size_file (file_src (s ! j)))"
          "nameIsSimilar f (file_src (s ! j)) z" "k = j"
    using "1.prems" ju by (subst (asm) scanFrom.simps) (auto split: if_splits)
  then show ?case
  proof cases
    case a
    from "1.IH"(1) [OF ju a(1) a(2)] show ?thesis by simp
  next
    case b
    from "1.IH"(2) [OF ju _ b(2) b(3)] b(1) show ?thesis by simp
  next
    case c
    from "1.IH"(3) [OF ju _ c(2) c(3) c(4) c(5)] c(1) show ?thesis by simp
  next
    case d
    with ju show ?thesis by simp
  qed
qed

section \<open>The size window\<close>

lemma sint_mul30:
  fixes x :: int64
  assumes "0 \<le> sint x" "sint x * 30 < 2 ^ 63"
  shows "sint (x * 30) = sint x * 30"
proof -
  have "sint (x * 30) = signed_take_bit 63 (sint x * sint (30 :: int64))"
    by (simp add: sint_word_ariths)
  also have "\<dots> = signed_take_bit 63 (sint x * 30)" by simp
  also have "\<dots> = sint x * 30"
    using assms by (intro signed_take_bit_int_eq_self) auto
  finally show ?thesis .
qed

lemma sint_div64_30:
  fixes x :: int64
  assumes "0 \<le> sint x" "sint x * 30 < 2 ^ 63"
  shows "sint (div64 (x * similarityPercentThreshold) 100) = sint x * 30 div 100"
proof -
  have nn: "0 \<le> sint x * 30" using assms by simp
  have "sint x * 30 sdiv 100 = sint x * 30 div 100"
    using nn by (simp add: signed_divide_int_def sgn_if)
  moreover have "0 \<le> sint x * 30 div 100" using nn by simp
  moreover have "sint x * 30 div 100 \<le> sint x * 30" using nn by simp
  ultimately have "sint (word_of_int (sint x * 30 sdiv 100) :: int64) = sint x * 30 div 100"
    using assms by (simp add: sint_sbintrunc' signed_take_bit_int_eq_self)
  then show ?thesis
    using assms by (simp add: div64_def similarityPercentThreshold_def sint_mul30)
qed

lemma window_exact:
  assumes "0 \<le> sint (size_file file)" "sint (size_file file) * 30 < 2 ^ 63"
  shows "sint (minSize file) = sint (size_file file) - sint (size_file file) * 30 div 100"
    and "sint (maxSize file) = sint (size_file file) + sint (size_file file) * 30 div 100"
proof -
  let ?x = "sint (size_file file)"
  let ?d = "?x * 30 div 100"
  have d: "sint (div64 (size_file file * similarityPercentThreshold) 100) = ?d"
    using assms by (rule sint_div64_30)
  have d0: "0 \<le> ?d" using assms by simp
  have dle: "?d \<le> ?x" using assms by simp
  have d3: "3 * ?d \<le> ?x" using assms by simp
  have "sint (minSize file) = signed_take_bit 63 (?x - ?d)"
    by (simp add: minSize_def sint_word_ariths d)
  also have "\<dots> = ?x - ?d"
    using assms d0 dle by (intro signed_take_bit_int_eq_self) auto
  finally show "sint (minSize file) = ?x - ?d" .
  have "sint (maxSize file) = signed_take_bit 63 (?x + ?d)"
    by (simp add: maxSize_def sint_word_ariths d)
  also have "\<dots> = ?x + ?d"
    using assms d0 dle d3 by (intro signed_take_bit_int_eq_self) auto
  finally show "sint (maxSize file) = ?x + ?d" .
qed

section \<open>The lookup tables\<close>

lemma last_index_map:
  "(foldl (\<lambda>m i. m(key i \<mapsto> i)) Map.empty [0..<n] h = Some k) =
   (k < n \<and> key k = h \<and> (\<forall>i. k < i \<and> i < n \<longrightarrow> key i \<noteq> h))"
proof (induction n)
  case 0
  show ?case by simp
next
  case (Suc n)
  show ?case
  proof (cases "key n = h")
    case True
    then show ?thesis
      by (auto simp: less_Suc_eq)
  next
    case False
    then show ?thesis
      using Suc by (auto simp: less_Suc_eq)
  qed
qed

lemma sourceBySha1_Some:
  "(sourceBySha1 s h = Some k) =
   (k < length s \<and> sha1 (file_src (s ! k)) = h \<and>
    (\<forall>i. k < i \<and> i < length s \<longrightarrow> sha1 (file_src (s ! i)) \<noteq> h))"
  unfolding sourceBySha1_def by (rule last_index_map)

lemma sourceByPath_Some:
  "(sourceByPath s p = Some k) =
   (k < length s \<and> path (file_src (s ! k)) = p \<and>
    (\<forall>i. k < i \<and> i < length s \<longrightarrow> path (file_src (s ! i)) \<noteq> p))"
  unfolding sourceByPath_def by (rule last_index_map)

lemma scanFrom_files_cong:
  "(\<forall>i<u. file_src (s ! i) = file_src (s' ! i)) \<Longrightarrow>
   scanFrom s f z u j l = scanFrom s' f z u j l"
proof (induction s f z u j l rule: scanFrom.induct)
  case (1 s f z u j l)
  show ?case
  proof (cases "j < u")
    case False
    then show ?thesis by (simp add: scanFrom_stop)
  next
    case True
    then have e: "file_src (s' ! j) = file_src (s ! j)" using "1.prems" by simp
    show ?thesis
    proof (cases "isDeltaCandidate (file_src (s ! j))")
      case False
      have "scanFrom s f z u (Suc j) l = scanFrom s' f z u (Suc j) l"
        using "1.IH"(1) [OF True False "1.prems"] .
      then show ?thesis
        using True False by (simp add: scanFrom_noncand e)
    next
      case cand: True
      show ?thesis
      proof (cases "lt64 (size_file (file_src (s ! j))) (minSize f)")
        case low: True
        have "scanFrom s f z u (Suc j) (Suc l) = scanFrom s' f z u (Suc j) (Suc l)"
          using "1.IH"(2) [OF True _ low "1.prems"] cand by simp
        then show ?thesis
          using True cand low by (simp add: scanFrom_below e)
      next
        case nlow: False
        show ?thesis
        proof (cases "lt64 (maxSize f) (size_file (file_src (s ! j)))")
          case True
          then show ?thesis
            using \<open>j < u\<close> cand nlow by (simp add: scanFrom_above e)
        next
          case nhigh: False
          show ?thesis
          proof (cases "nameIsSimilar f (file_src (s ! j)) z")
            case True
            then show ?thesis
              using \<open>j < u\<close> cand nlow nhigh by (simp add: scanFrom_found e)
          next
            case False
            have "scanFrom s f z u (Suc j) l = scanFrom s' f z u (Suc j) l"
              using "1.IH"(3) [OF \<open>j < u\<close> _ nlow nhigh _ "1.prems"] cand False by simp
            then show ?thesis
              using \<open>j < u\<close> cand nlow nhigh False by (simp add: scanFrom_dissimilar e)
          qed
        qed
      qed
    qed
  qed
qed

lemma fuzzyLoop_files_cong:
  "(\<forall>i<u. file_src (s ! i) = file_src (s' ! i)) \<Longrightarrow>
   fuzzyLoop s f u z l r = fuzzyLoop s' f u z l r"
proof (induction s f u z l r rule: fuzzyLoop.induct)
  case (1 s f u z l r)
  show ?case
  proof (cases "z < 2 \<and> r = None")
    case False
    have "fuzzyLoop s f u z l r = (z, l, r)" "fuzzyLoop s' f u z l r = (z, l, r)"
      using False by (subst fuzzyLoop.simps, auto)+
    then show ?thesis by simp
  next
    case True
    obtain l1 r1 where sc: "scanFrom s f z u l l = (l1, r1)" by (cases "scanFrom s f z u l l")
    then have sc': "scanFrom s' f z u l l = (l1, r1)"
      using scanFrom_files_cong [OF "1.prems"] by simp
    have ih: "fuzzyLoop s f u (z + 1) l1 r1 = fuzzyLoop s' f u (z + 1) l1 r1"
      using "1.IH" [OF True sc [symmetric] "1.prems"] .
    have "fuzzyLoop s f u z l r = fuzzyLoop s f u (z + 1) l1 r1"
      using True sc by (subst fuzzyLoop.simps) simp
    moreover have "fuzzyLoop s' f u z l r = fuzzyLoop s' f u (z + 1) l1 r1"
      using True sc' by (subst fuzzyLoop.simps) simp
    ultimately show ?thesis using ih by simp
  qed
qed

section \<open>The two fuzzy passes\<close>

lemma fuzzyLoop_done: "\<not> (z < 2 \<and> r = None) \<Longrightarrow> fuzzyLoop s f u z l r = (z, l, r)"
  by (subst fuzzyLoop.simps) auto

lemma fuzzyLoop_step:
  "z < 2 \<Longrightarrow> scanFrom s f z u l l = (l', r') \<Longrightarrow>
   fuzzyLoop s f u z l None = fuzzyLoop s f u (z + 1) l' r'"
  by (subst fuzzyLoop.simps) simp

lemma naiveFuzzyLoop_done: "\<not> (z < 2 \<and> r = None) \<Longrightarrow> naiveFuzzyLoop s f u z r = (z, r)"
  by (subst naiveFuzzyLoop.simps) auto

lemma naiveFuzzyLoop_step:
  "z < 2 \<Longrightarrow>
   naiveFuzzyLoop s f u z None = naiveFuzzyLoop s f u (z + 1) (snd (scanFrom s f z u 0 0))"
  by (subst naiveFuzzyLoop.simps) simp

text \<open>The two passes of the code, written out.\<close>

lemma fuzzyLoop_two_passes:
  "fuzzyLoop s f u 0 0 None =
     (case scanFrom s f 0 u 0 0 of
        (l0, Some k) \<Rightarrow> (1, l0, Some k)
      | (l0, None) \<Rightarrow> (case scanFrom s f 1 u l0 l0 of (l1, r1) \<Rightarrow> (2, l1, r1)))"
proof -
  obtain l0 r0 where p0: "scanFrom s f 0 u 0 0 = (l0, r0)" by (cases "scanFrom s f 0 u 0 0")
  have a: "fuzzyLoop s f u 0 0 None = fuzzyLoop s f u 1 l0 r0"
    using fuzzyLoop_step [of 0 s f u 0 l0 r0] p0 by simp
  show ?thesis
  proof (cases r0)
    case (Some k)
    then show ?thesis using a p0 by (simp add: fuzzyLoop_done)
  next
    case None
    obtain l1 r1 where p1: "scanFrom s f 1 u l0 l0 = (l1, r1)" by (cases "scanFrom s f 1 u l0 l0")
    have "fuzzyLoop s f u 1 l0 None = fuzzyLoop s f u 2 l1 r1"
      using fuzzyLoop_step [of 1 s f u l0 l1 r1] p1 by simp
    then show ?thesis using a p0 p1 None by (simp add: fuzzyLoop_done)
  qed
qed

lemma naiveFuzzyLoop_two_passes:
  "naiveFuzzyLoop s f u 0 None =
     (case snd (scanFrom s f 0 u 0 0) of
        Some k \<Rightarrow> (1, Some k)
      | None \<Rightarrow> (2, snd (scanFrom s f 1 u 0 0)))"
proof -
  have a: "naiveFuzzyLoop s f u 0 None = naiveFuzzyLoop s f u 1 (snd (scanFrom s f 0 u 0 0))"
    using naiveFuzzyLoop_step [of 0 s f u] by simp
  show ?thesis
  proof (cases "snd (scanFrom s f 0 u 0 0)")
    case (Some k)
    then show ?thesis using a by (simp add: naiveFuzzyLoop_done)
  next
    case None
    have "naiveFuzzyLoop s f u 1 None = naiveFuzzyLoop s f u 2 (snd (scanFrom s f 1 u 0 0))"
      using naiveFuzzyLoop_step [of 1 s f u] by simp
    then show ?thesis using a None by (simp add: naiveFuzzyLoop_done)
  qed
qed

text \<open>
  C9: on a size-sorted inventory the two-pass scan of the code, whose second pass starts at
  the lower bound left by the first, ends with the same source and the same value of
  \<open>fuzzy\<close> as the scan whose passes both start at index 0.
\<close>

theorem C9_shared_lower_bound:
  assumes "sizeSorted sourceInfos"
  shows "(case fuzzyLoop sourceInfos file (length sourceInfos) 0 0 None of
            (fuzzy, lower, src) \<Rightarrow> (fuzzy, src)) =
         naiveFuzzyLoop sourceInfos file (length sourceInfos) 0 None"
proof -
  let ?u = "length sourceInfos"
  obtain l0 r0 where p0: "scanFrom sourceInfos file 0 ?u 0 0 = (l0, r0)"
    by (cases "scanFrom sourceInfos file 0 ?u 0 0")
  show ?thesis
  proof (cases r0)
    case (Some k)
    then show ?thesis
      using p0 by (simp add: fuzzyLoop_two_passes naiveFuzzyLoop_two_passes)
  next
    case None
    have low: "l0 \<le> ?u \<and> (\<forall>i<l0. skipped sourceInfos file i)"
      using scanFrom_lower_skipped [OF assms, of ?u 0 0 "file" 0 l0 r0] p0 by simp
    have "snd (scanFrom sourceInfos file 1 ?u 0 0) = snd (scanFrom sourceInfos file 1 ?u l0 l0)"
      using scanFrom_skip_prefix [of 0 l0 ?u sourceInfos "file" 1 0 l0] low by simp
    then show ?thesis
      using p0 None
      by (simp add: fuzzyLoop_two_passes naiveFuzzyLoop_two_passes split: prod.splits)
  qed
qed

lemma fuzzyLoop_SomeD:
  assumes "fuzzyLoop s f u 0 0 None = (z, l, Some k)"
  shows "k < u \<and> isDeltaCandidate (file_src (s ! k)) \<and>
         \<not> lt64 (size_file (file_src (s ! k))) (minSize f) \<and>
         \<not> lt64 (maxSize f) (size_file (file_src (s ! k))) \<and>
         (z = 1 \<or> z = 2) \<and> nameIsSimilar f (file_src (s ! k)) (z - 1)"
proof -
  obtain l0 r0 where p0: "scanFrom s f 0 u 0 0 = (l0, r0)" by (cases "scanFrom s f 0 u 0 0")
  show ?thesis
  proof (cases r0)
    case (Some k')
    with assms p0 have "z = 1" "k' = k" by (simp_all add: fuzzyLoop_two_passes)
    with scanFrom_SomeD [of s f 0 u 0 0 l0 k] p0 Some show ?thesis by simp
  next
    case None
    obtain l1 r1 where p1: "scanFrom s f 1 u l0 l0 = (l1, r1)" by (cases "scanFrom s f 1 u l0 l0")
    with assms p0 None have "z = 2" "r1 = Some k" by (simp_all add: fuzzyLoop_two_passes)
    with scanFrom_SomeD [of s f 1 u l0 l0 l1 k] p1 show ?thesis by simp
  qed
qed

text \<open>
  C8: a record chosen by the fuzzy scan, in either pass, has its size inside the window
  \<open>[minSize, maxSize]\<close> that the code computes for the target; when the target's size
  is non-negative and 30 times it fits in an \<open>int64\<close>, that window is
  \<open>[size - size * 30 div 100, size + size * 30 div 100]\<close>.
\<close>

theorem C8_fuzzy_source_in_window:
  assumes "fuzzyLoop sourceInfos file (length sourceInfos) 0 0 None = (fuzzy, lower, Some k)"
  shows "k < length sourceInfos \<and>
         le64 (minSize file) (size_file (file_src (sourceInfos ! k))) \<and>
         le64 (size_file (file_src (sourceInfos ! k))) (maxSize file) \<and>
         (0 \<le> sint (size_file file) \<and> sint (size_file file) * 30 < 2 ^ 63 \<longrightarrow>
            sint (size_file file) - sint (size_file file) * 30 div 100
              \<le> sint (size_file (file_src (sourceInfos ! k))) \<and>
            sint (size_file (file_src (sourceInfos ! k)))
              \<le> sint (size_file file) + sint (size_file file) * 30 div 100)"
  using fuzzyLoop_SomeD [OF assms] window_exact [of "file"]
  by (auto simp: le64_def lt64_def)

lemmas ex_simps = exSources_def exTarget_def initSourceInfos_def mkFile_def
  isDeltaCandidate_def minSize_def maxSize_def div64_def lt64_def le64_def
  similarityPercentThreshold_def nameIsSimilar_def signed_divide_int_def

lemma ex_sorted: "sizeSorted exSources"
  by (simp add: sizeSorted_def ex_simps)

lemma ex_pass0: "scanFrom exSources exTarget 0 2 0 0 = (Suc 0, None)"
proof -
  have "scanFrom exSources exTarget 0 2 0 0 = scanFrom exSources exTarget 0 2 (Suc 0) (Suc 0)"
    by (rule scanFrom_below) (simp_all add: ex_simps)
  also have "\<dots> = scanFrom exSources exTarget 0 2 (Suc (Suc 0)) (Suc 0)"
    by (rule scanFrom_dissimilar) (simp_all add: ex_simps)
  also have "\<dots> = (Suc 0, None)"
    by (rule scanFrom_stop) simp
  finally show ?thesis by simp
qed

lemma ex_pass1: "scanFrom exSources exTarget 1 2 (Suc 0) (Suc 0) = (Suc 0, Some (Suc 0))"
  by (rule scanFrom_found) (simp_all add: ex_simps)

lemma ex_fuzzyLoop: "fuzzyLoop exSources exTarget (length exSources) 0 0 None = (2, 1, Some 1)"
proof -
  have "length exSources = 2" by (simp add: ex_simps)
  then show ?thesis
    by (simp add: fuzzyLoop_two_passes ex_pass0 ex_pass1)
qed

text \<open>C9, at a two-record inventory where the first pass advances the lower bound.\<close>

theorem C9_shared_lower_bound_witness:
  "sizeSorted exSources \<and>
   fuzzyLoop exSources exTarget (length exSources) 0 0 None = (2, 1, Some 1) \<and>
   naiveFuzzyLoop exSources exTarget (length exSources) 0 None = (2, Some 1)"
  using C9_shared_lower_bound [OF ex_sorted, of exTarget] ex_fuzzyLoop ex_sorted by simp

text \<open>C8, at the same inventory: a 90-byte source for a 100-byte target.\<close>

theorem C8_fuzzy_source_in_window_witness:
  "fuzzyLoop exSources exTarget (length exSources) 0 0 None = (2, 1, Some 1) \<and>
   sint (size_file exTarget) = 100 \<and>
   sint (size_file (file_src (exSources ! 1))) = 90 \<and>
   (100::int) - 100 * 30 div 100 \<le> 90 \<and> (90::int) \<le> 100 + 100 * 30 div 100"
  using C8_fuzzy_source_in_window [OF ex_fuzzyLoop] ex_fuzzyLoop
  by (simp add: ex_simps)

section \<open>The choice for one target and the whole selection pass\<close>

lemma sourceBySha1_files_cong:
  "map file_src s = map file_src s0 \<Longrightarrow> sourceBySha1 s = sourceBySha1 s0"
proof (rule ext)
  fix h
  assume e: "map file_src s = map file_src s0"
  then have len: "length s = length s0" by (metis length_map)
  have nth: "\<And>i. i < length s0 \<Longrightarrow> file_src (s ! i) = file_src (s0 ! i)"
    using e len by (metis nth_map)
  show "sourceBySha1 s h = sourceBySha1 s0 h"
  proof (cases "sourceBySha1 s0 h")
    case None
    have "sourceBySha1 s h \<noteq> Some k" for k
      using None sourceBySha1_Some [of s0 h k] sourceBySha1_Some [of s h k] len nth by auto
    with None show ?thesis by (cases "sourceBySha1 s h") auto
  next
    case (Some k)
    then have "sourceBySha1 s h = Some k"
      using sourceBySha1_Some [of s0 h k] sourceBySha1_Some [of s h k] len nth by auto
    with Some show ?thesis by simp
  qed
qed

lemma sourceByPath_files_cong:
  "map file_src s = map file_src s0 \<Longrightarrow> sourceByPath s = sourceByPath s0"
proof (rule ext)
  fix h
  assume e: "map file_src s = map file_src s0"
  then have len: "length s = length s0" by (metis length_map)
  have nth: "\<And>i. i < length s0 \<Longrightarrow> file_src (s ! i) = file_src (s0 ! i)"
    using e len by (metis nth_map)
  show "sourceByPath s h = sourceByPath s0 h"
  proof (cases "sourceByPath s0 h")
    case None
    have "sourceByPath s h \<noteq> Some k" for k
      using None sourceByPath_Some [of s0 h k] sourceByPath_Some [of s h k] len nth by auto
    with None show ?thesis by (cases "sourceByPath s h") auto
  next
    case (Some k)
    then have "sourceByPath s h = Some k"
      using sourceByPath_Some [of s0 h k] sourceByPath_Some [of s h k] len nth by auto
    with Some show ?thesis by simp
  qed
qed

lemma selectSource_files_cong:
  assumes e: "map file_src s = map file_src s0"
  shows "selectSource s (sourceBySha1 s0) (sourceByPath s0) f =
         selectSource s0 (sourceBySha1 s0) (sourceByPath s0) f"
proof -
  have len: "length s = length s0" using e by (metis length_map)
  have nth: "\<And>i. i < length s0 \<Longrightarrow> file_src (s ! i) = file_src (s0 ! i)"
    using e len by (metis nth_map)
  have fz: "fuzzyLoop s f (length s0) 0 0 None = fuzzyLoop s0 f (length s0) 0 0 None"
    by (rule fuzzyLoop_files_cong) (simp add: nth)
  have a: "sourceBySha1 s0 h = Some k \<Longrightarrow> file_src (s ! k) = file_src (s0 ! k)" for h k
    using sourceBySha1_Some [of s0 h k] nth by simp
  have b: "sourceByPath s0 h = Some k \<Longrightarrow> file_src (s ! k) = file_src (s0 ! k)" for h k
    using sourceByPath_Some [of s0 h k] nth by simp
  show ?thesis
    unfolding selectSource_def Let_def len fz
    by (auto split: option.splits simp: a b)
qed

lemma selectSource_exact:
  assumes "sourceBySha1 s (sha1 f) = Some k"
    and "size_file f = size_file (file_src (s ! k))"
    and "worldReadable (file_src (s ! k))"
  shows "selectSource s (sourceBySha1 s) (sourceByPath s) f = (False, Some k)"
  using assms by (simp add: selectSource_def)

lemma selectSource_SomeD:
  assumes r: "selectSource s (sourceBySha1 s) (sourceByPath s) f = (used, Some k)"
  shows "k < length s \<and> worldReadable (file_src (s ! k)) \<and>
         (used \<longrightarrow> isDeltaCandidate f \<and> isDeltaCandidate (file_src (s ! k)) \<and>
                  le64 (minSize f) (size_file (file_src (s ! k))) \<and>
                  le64 (size_file (file_src (s ! k))) (maxSize f)) \<and>
         (\<not> used \<longrightarrow> sourceBySha1 s (sha1 f) = Some k \<and>
                  size_file f = size_file (file_src (s ! k)))"
proof -
  let ?exact = "case sourceBySha1 s (sha1 f) of None \<Rightarrow> None
     | Some k \<Rightarrow> if size_file f = size_file (file_src (s ! k)) \<and> worldReadable (file_src (s ! k))
                then sourceBySha1 s (sha1 f) else None"
  have cand_wr: "\<And>x. isDeltaCandidate x \<Longrightarrow> worldReadable x"
    by (simp add: isDeltaCandidate_def split: if_splits)
  show ?thesis
  proof (cases "?exact = None \<and> isDeltaCandidate f")
    case False
    with r have u: "\<not> used" and ex: "?exact = Some k"
      by (auto simp: selectSource_def Let_def)
    from ex have "sourceBySha1 s (sha1 f) = Some k \<and>
        size_file f = size_file (file_src (s ! k)) \<and> worldReadable (file_src (s ! k))"
      by (auto split: option.splits if_splits)
    with u sourceBySha1_Some [of s "sha1 f" k] show ?thesis by simp
  next
    case True
    note fz = fuzzyLoop_SomeD [of s f "length s"]
    have fuzzy_case: ?thesis
      if "fuzzyLoop s f (length s) 0 0 None = (z, l, found)" "(found \<noteq> None, found) = (used, Some k)"
      for z l found
    proof -
      from that(2) have fk: "found = Some k" by simp
      from that(2) fk have u: "used" by simp
      from that(1) fk have p: "fuzzyLoop s f (length s) 0 0 None = (z, l, Some k)" by simp
      from fz [OF p] True cand_wr u show ?thesis
        by (auto simp: le64_def lt64_def)
    qed
    show ?thesis
    proof (cases "sourceByPath s (path f)")
      case None
      obtain z l found where p: "fuzzyLoop s f (length s) 0 0 None = (z, l, found)"
        by (cases "fuzzyLoop s f (length s) 0 0 None")
      with r True None have "(found \<noteq> None, found) = (used, Some k)"
        by (auto simp: selectSource_def Let_def)
      with p show ?thesis by (rule fuzzy_case)
    next
      case (Some p)
      show ?thesis
      proof (cases "isDeltaCandidate (file_src (s ! p)) \<and>
                    le64 (minSize f) (size_file (file_src (s ! p))) \<and>
                    lt64 (size_file (file_src (s ! p))) (maxSize f)")
        case pm: True
        with r True Some have "used" "k = p"
          by (auto simp: selectSource_def Let_def)
        with pm True sourceByPath_Some [of s "path f" p] Some cand_wr show ?thesis
          by (auto simp: le64_def lt64_def)
      next
        case False
        obtain z l found where q: "fuzzyLoop s f (length s) 0 0 None = (z, l, found)"
          by (cases "fuzzyLoop s f (length s) 0 0 None")
        with r True Some False have "(found \<noteq> None, found) = (used, Some k)"
          by (auto simp: selectSource_def Let_def)
        with q show ?thesis by (rule fuzzy_case)
      qed
    qed
  qed
qed

lemma map_file_src_update:
  "map file_src (s[k := (s ! k)\<lparr>usedForDelta := u\<rparr>]) = map file_src s"
proof (cases "k < length s")
  case True
  then have "(map file_src s)[k := file_src (s ! k)] = map file_src s"
    by (metis list_update_id nth_map)
  then show ?thesis by (simp add: map_update)
next
  case False
  then have "s[k := (s ! k)\<lparr>usedForDelta := u\<rparr>] = s"
    by (metis list_update_beyond not_less)
  then show ?thesis by simp
qed

lemma analyzeTarget_files:
  "map file_src (fst (analyzeTarget crm bS bP (s, ts) f)) = map file_src s"
  by (simp add: analyzeTarget_def map_file_src_update split: prod.splits option.splits)

lemma analyzeTarget_snd:
  assumes e: "map file_src s = map file_src s0"
  shows "snd (analyzeTarget crm (sourceBySha1 s0) (sourceByPath s0) (s, ts) f) =
         ts @ [targetInfoOf crm s0 (sourceBySha1 s0) (sourceByPath s0) f]"
proof -
  have len: "length s = length s0" using e by (metis length_map)
  have nth: "\<And>i. i < length s0 \<Longrightarrow> file_src (s ! i) = file_src (s0 ! i)"
    using e len by (metis nth_map)
  obtain used r where sel: "selectSource s0 (sourceBySha1 s0) (sourceByPath s0) f = (used, r)"
    by (cases "selectSource s0 (sourceBySha1 s0) (sourceByPath s0) f")
  then have sel': "selectSource s (sourceBySha1 s0) (sourceByPath s0) f = (used, r)"
    using selectSource_files_cong [OF e] by simp
  show ?thesis
  proof (cases r)
    case None
    with sel sel' show ?thesis by (simp add: analyzeTarget_def targetInfoOf_def)
  next
    case (Some k)
    then have "k < length s0"
      using selectSource_SomeD [of s0 f used k] sel by simp
    then have "file_src (s ! k) = file_src (s0 ! k)" by (rule nth)
    with Some sel sel' show ?thesis by (simp add: analyzeTarget_def targetInfoOf_def)
  qed
qed

lemma foldl_analyzeTarget:
  "map file_src s = map file_src s0 \<Longrightarrow>
   snd (foldl (analyzeTarget crm (sourceBySha1 s0) (sourceByPath s0)) (s, ts) new) =
     ts @ map (targetInfoOf crm s0 (sourceBySha1 s0) (sourceByPath s0)) new \<and>
   map file_src (fst (foldl (analyzeTarget crm (sourceBySha1 s0) (sourceByPath s0)) (s, ts) new)) =
     map file_src s0"
proof (induction new arbitrary: s ts)
  case Nil
  then show ?case by simp
next
  case (Cons f new)
  let ?st = "analyzeTarget crm (sourceBySha1 s0) (sourceByPath s0) (s, ts) f"
  have e': "map file_src (fst ?st) = map file_src s0"
    using analyzeTarget_files [of crm _ _ s ts f] Cons.prems by simp
  have sn: "snd ?st = ts @ [targetInfoOf crm s0 (sourceBySha1 s0) (sourceByPath s0) f]"
    using analyzeTarget_snd [OF Cons.prems] .
  have "?st = (fst ?st, snd ?st)" by simp
  then show ?case
    using Cons.IH [OF e', of "snd ?st"] sn by (simp del: prod.collapse)
qed

lemma selectAll_targets:
  "snd (selectAll crm old new) =
     map (targetInfoOf crm (initSourceInfos old) (sourceBySha1 (initSourceInfos old))
            (sourceByPath (initSourceInfos old))) new"
  using foldl_analyzeTarget [of "initSourceInfos old" "initSourceInfos old" crm "[]" new]
  by (simp add: selectAll_def Let_def)

lemma initSourceInfos_nth:
  "k < length old \<Longrightarrow> file_src (initSourceInfos old ! k) = old ! k"
  by (simp add: initSourceInfos_def)

lemma length_initSourceInfos: "length (initSourceInfos old) = length old"
  by (simp add: initSourceInfos_def)

lemma targetInfoOf_cases:
  "targetInfoOf crm s (sourceBySha1 s) (sourceByPath s) f =
     (case selectSource s (sourceBySha1 s) (sourceByPath s) f of
        (used, None) \<Rightarrow> \<lparr>file_tgt = f, source = None, rollsumMatches = None\<rparr>
      | (used, Some k) \<Rightarrow>
          \<lparr>file_tgt = f, source = Some k,
            rollsumMatches = (if used then Some (crm (blobs (file_src (s ! k))) (blobs f)) else None)\<rparr>)"
  by (simp add: targetInfoOf_def analyzeTarget_def split: prod.splits option.splits)

end
